theory Spec2Isabelle
  imports Complex_Main "HOL-Library.Word" "HOL-Library.List_Lexorder"
begin

unbundle bit_operations_syntax

section \<open>Bytes and hashes\<close>

text \<open>
  \<open>Hash256\<close> is \<open>std::array<uint8_t, 32>\<close> (crypto.hpp); byte vectors and
  \<open>std::string\<close> payloads are byte lists.
\<close>

type_synonym byte = "8 word"
type_synonym Hash256 = "byte list"

definition zero_hash :: Hash256 where
  "zero_hash = replicate 32 0"

subsection \<open>SHA-256\<close>

text \<open>
  \<open>SHA256::hash\<close> (crypto.cpp, lines 37-48) hands the message to OpenSSL's
  \<open>SHA256_Init / SHA256_Update / SHA256_Final\<close>. The function those calls compute is
  SHA-256 of FIPS 180-4, written out here on 32-bit words so that concrete digests can be
  evaluated. The round constants are listed eight to a row.
\<close>

definition K256 :: "32 word list" where
  "K256 = concat [
   [0x428a2f98, 0x71374491, 0xb5c0fbcf, 0xe9b5dba5, 0x3956c25b, 0x59f111f1, 0x923f82a4, 0xab1c5ed5],
   [0xd807aa98, 0x12835b01, 0x243185be, 0x550c7dc3, 0x72be5d74, 0x80deb1fe, 0x9bdc06a7, 0xc19bf174],
   [0xe49b69c1, 0xefbe4786, 0x0fc19dc6, 0x240ca1cc, 0x2de92c6f, 0x4a7484aa, 0x5cb0a9dc, 0x76f988da],
   [0x983e5152, 0xa831c66d, 0xb00327c8, 0xbf597fc7, 0xc6e00bf3, 0xd5a79147, 0x06ca6351, 0x14292967],
   [0x27b70a85, 0x2e1b2138, 0x4d2c6dfc, 0x53380d13, 0x650a7354, 0x766a0abb, 0x81c2c92e, 0x92722c85],
   [0xa2bfe8a1, 0xa81a664b, 0xc24b8b70, 0xc76c51a3, 0xd192e819, 0xd6990624, 0xf40e3585, 0x106aa070],
   [0x19a4c116, 0x1e376c08, 0x2748774c, 0x34b0bcb5, 0x391c0cb3, 0x4ed8aa4a, 0x5b9cca4f, 0x682e6ff3],
   [0x748f82ee, 0x78a5636f, 0x84c87814, 0x8cc70208, 0x90befffa, 0xa4506ceb, 0xbef9a3f7, 0xc67178f2]]"

definition H256_init :: "32 word list" where
  "H256_init = [0x6a09e667, 0xbb67ae85, 0x3c6ef372, 0xa54ff53a,
                0x510e527f, 0x9b05688c, 0x1f83d9ab, 0x5be0cd19]"

definition be32 :: "byte list \<Rightarrow> 32 word" where
  "be32 bs = foldl (\<lambda>acc b. acc * 256 + ucast b) 0 bs"

definition bytes_of_be32 :: "32 word \<Rightarrow> byte list" where
  "bytes_of_be32 w = [ucast (drop_bit 24 w), ucast (drop_bit 16 w), ucast (drop_bit 8 w), ucast w]"

definition bytes_of_be64 :: "64 word \<Rightarrow> byte list" where
  "bytes_of_be64 w = map (\<lambda>i. ucast (drop_bit (8 * (7 - i)) w)) [0..<8]"

definition sha_pad :: "byte list \<Rightarrow> byte list" where
  "sha_pad m = m @ [0x80] @ replicate ((119 - length m mod 64) mod 64) 0
                 @ bytes_of_be64 (word_of_nat (8 * length m))"

fun chunks :: "nat \<Rightarrow> 'a list \<Rightarrow> 'a list list" where
  "chunks n [] = []"
| "chunks n xs = (if n = 0 then [xs] else take n xs # chunks n (drop n xs))"

fun schedule :: "nat \<Rightarrow> 32 word list \<Rightarrow> 32 word list" where
  "schedule 0 w = w"
| "schedule (Suc k) w =
     (let n = length w;
          x = w ! (n - 15);
          y = w ! (n - 2);
          s0 = word_rotr 7 x XOR word_rotr 18 x XOR drop_bit 3 x;
          s1 = word_rotr 17 y XOR word_rotr 19 y XOR drop_bit 10 y
      in schedule k (w @ [w ! (n - 16) + s0 + w ! (n - 7) + s1]))"

type_synonym sha_state =
  "32 word \<times> 32 word \<times> 32 word \<times> 32 word \<times> 32 word \<times> 32 word \<times> 32 word \<times> 32 word"

fun sha_round :: "sha_state \<Rightarrow> 32 word \<times> 32 word \<Rightarrow> sha_state" where
  "sha_round (a, b, c, d, e, f, g, h) (k, w) =
     (let S1 = word_rotr 6 e XOR word_rotr 11 e XOR word_rotr 25 e;
          ch = (e AND f) XOR (NOT e AND g);
          t1 = h + S1 + ch + k + w;
          S0 = word_rotr 2 a XOR word_rotr 13 a XOR word_rotr 22 a;
          mj = (a AND b) XOR (a AND c) XOR (b AND c);
          t2 = S0 + mj
      in (t1 + t2, a, b, c, d + t1, e, f, g))"

definition compress :: "32 word list \<Rightarrow> byte list \<Rightarrow> 32 word list" where
  "compress hs blk =
     (let w = schedule 48 (map be32 (chunks 4 blk));
          s0 = (hs ! 0, hs ! 1, hs ! 2, hs ! 3, hs ! 4, hs ! 5, hs ! 6, hs ! 7)
      in case foldl sha_round s0 (zip K256 w) of
           (a, b, c, d, e, f, g, h) \<Rightarrow> map2 (+) hs [a, b, c, d, e, f, g, h])"

definition sha256 :: "byte list \<Rightarrow> Hash256" where
  "sha256 m = concat (map bytes_of_be32 (foldl compress H256_init (chunks 64 (sha_pad m))))"

text \<open>\<open>SHA256::double_hash\<close> (crypto.cpp, lines 50-53): the hash of the hash.\<close>

definition double_hash :: "byte list \<Rightarrow> Hash256" where
  "double_hash m = sha256 (sha256 m)"

subsection \<open>Reading byte strings as numbers\<close>

text \<open>The value of a byte string read as one big-endian unsigned integer.\<close>

definition be_nat :: "byte list \<Rightarrow> nat" where
  "be_nat bs = foldl (\<lambda>acc b. 256 * acc + unat b) 0 bs"

text \<open>
  The target a compact value stands for in the specification: the 24-bit mantissa times
  \<open>256 ^ (exponent - 3)\<close>, the exponent being the top byte (rounded down when the
  exponent is below 3).
\<close>

definition spec_target :: "32 word \<Rightarrow> nat" where
  "spec_target bits =
     (let exponent = unat (drop_bit 24 bits); mantissa = unat (bits AND 0xffffff)
      in if 3 \<le> exponent then mantissa * 256 ^ (exponent - 3)
         else mantissa div 256 ^ (3 - exponent))"

section \<open>Proof of work (consensus.cpp)\<close>

text \<open>
  \<open>compute_block_hash\<close> appends the four bytes of the nonce as they lie in memory
  (least significant first on the little-endian hosts the code is built for) and takes the
  double SHA-256.
\<close>

definition le32_bytes :: "32 word \<Rightarrow> byte list" where
  "le32_bytes v = map (\<lambda>i. ucast (drop_bit (8 * i) v)) [0..<4]"

definition compute_block_hash :: "byte list \<Rightarrow> 32 word \<Rightarrow> Hash256" where
  "compute_block_hash block_data nonce = double_hash (block_data @ le32_bytes nonce)"

text \<open>
  \<open>bits_to_target\<close> works on a \<open>uint64_t\<close>. Shifting a 64-bit value by 64 or more
  is undefined in C++, which happens for every exponent above 10; the model returns
  \<open>None\<close> there and the shifted value (bits pushed out at the top are lost) otherwise.
\<close>

definition bits_to_target :: "32 word \<Rightarrow> 64 word option" where
  "bits_to_target difficulty_bits =
     (let exponent = drop_bit 24 difficulty_bits;
          mantissa = (ucast (difficulty_bits AND 0xffffff) :: 64 word)
      in if exponent \<le> 3 then Some (drop_bit (8 * (3 - unat exponent)) mantissa)
         else if 8 * (unat exponent - 3) < 64
              then Some (push_bit (8 * (unat exponent - 3)) mantissa)
              else None)"

text \<open>The loop \<open>for (i = 7; i >= 0; --i) hash_value = (hash_value << 8) | hash[i]\<close>.\<close>

definition hash_value :: "Hash256 \<Rightarrow> 64 word" where
  "hash_value hash = foldl (\<lambda>acc i. push_bit 8 acc OR ucast (hash ! i)) 0 (rev [0..<8])"

definition meets_difficulty_target :: "Hash256 \<Rightarrow> 32 word \<Rightarrow> bool option" where
  "meets_difficulty_target hash difficulty_bits =
     map_option (\<lambda>target. hash_value hash \<le> target) (bits_to_target difficulty_bits)"

definition verify_proof_of_work :: "byte list \<Rightarrow> 32 word \<Rightarrow> 32 word \<Rightarrow> bool option" where
  "verify_proof_of_work block_data nonce difficulty_target =
     meets_difficulty_target (compute_block_hash block_data nonce) difficulty_target"

section \<open>Difficulty adjustment (consensus.cpp, consensus.hpp)\<close>

definition MAX_DIFFICULTY_BITS :: "32 word" where
  "MAX_DIFFICULTY_BITS = 0x1d00ffff"

definition MIN_DIFFICULTY_BITS :: "32 word" where
  "MIN_DIFFICULTY_BITS = 0x207fffff"

text \<open>Lines 193-198: the two \<open>if\<close>s that limit \<open>actual_time_span\<close>, on \<open>uint64_t\<close>.\<close>

definition limit_time_span :: "64 word \<Rightarrow> 64 word \<Rightarrow> 64 word" where
  "limit_time_span actual_time_span target_time_span =
     (let a1 = (if actual_time_span < target_time_span div 4
                then target_time_span div 4 else actual_time_span)
      in if a1 > target_time_span * 4 then target_time_span * 4 else a1)"

text \<open>Lines 210-215: the two \<open>if\<close>s that enforce the difficulty limits, in source order.\<close>

definition enforce_difficulty_limits :: "32 word \<Rightarrow> 32 word" where
  "enforce_difficulty_limits new_difficulty_bits =
     (let b1 = (if new_difficulty_bits > MAX_DIFFICULTY_BITS
                then MAX_DIFFICULTY_BITS else new_difficulty_bits)
      in if b1 < MIN_DIFFICULTY_BITS then MIN_DIFFICULTY_BITS else b1)"

text \<open>
  Lines 201-207 compute \<open>difficulty_to_bits (bits_to_difficulty current * (target / actual))\<close>
  in \<open>double\<close> arithmetic. That computation is the parameter \<open>scaled_bits\<close>, a function
  of the current compact value and the two time spans; everything around it is modelled
  as written.
\<close>

definition calculate_next_difficulty ::
  "(32 word \<Rightarrow> 64 word \<Rightarrow> 64 word \<Rightarrow> 32 word) \<Rightarrow> 32 word \<Rightarrow> 64 word \<Rightarrow> 64 word \<Rightarrow> 32 word" where
  "calculate_next_difficulty scaled_bits current_difficulty actual_time_span target_time_span =
     enforce_difficulty_limits
       (scaled_bits current_difficulty
          (limit_time_span actual_time_span target_time_span) target_time_span)"

definition is_valid_difficulty_target :: "32 word \<Rightarrow> bool" where
  "is_valid_difficulty_target difficulty_bits \<longleftrightarrow>
     difficulty_bits \<ge> MIN_DIFFICULTY_BITS \<and> difficulty_bits \<le> MAX_DIFFICULTY_BITS"

section \<open>Block timestamps (consensus.cpp)\<close>

definition validate_timestamp :: "64 word \<Rightarrow> 64 word \<Rightarrow> 64 word \<Rightarrow> bool" where
  "validate_timestamp block_timestamp previous_block_timestamp current_time =
     (if block_timestamp \<le> previous_block_timestamp then False
      else if block_timestamp > current_time + 7200 then False
      else True)"

text \<open>
  The rule as the specification words it: the median of the previous (at most) eleven
  block timestamps, and the drift bound on unbounded numbers.
\<close>

definition spec_median :: "64 word list \<Rightarrow> 64 word" where
  "spec_median ts = sort ts ! (length ts div 2)"

definition spec_timestamp_rule :: "64 word \<Rightarrow> 64 word list \<Rightarrow> 64 word \<Rightarrow> bool" where
  "spec_timestamp_rule block_timestamp previous_timestamps current_time \<longleftrightarrow>
     spec_median (drop (length previous_timestamps - 11) previous_timestamps) < block_timestamp
     \<and> unat block_timestamp \<le> unat current_time + 7200"

section \<open>Hybrid consensus state (hybrid_consensus.hpp)\<close>

text \<open>
  The structs of the header, field by field. \<open>std::map<Hash256, _>\<close> is a finite map;
  where the code iterates over one, it visits the keys in increasing order of the byte
  arrays, which is the lexicographic order of lists. \<open>double\<close> values are modelled by
  real numbers (no rounding).
\<close>

record Validator =
  validator_id :: Hash256
  stake_amount :: "64 word"
  last_block_time :: "64 word"
  reputation_score :: "32 word"
  is_active :: bool
  public_key :: "byte list"
  total_blocks_created :: "32 word"
  missed_slots :: "32 word"

record StakeEntry =
  stake_validator_id :: Hash256
  amount :: "64 word"
  lock_height :: "32 word"
  is_locked :: bool

record BlockSlot =
  slot_validator_id :: Hash256
  slot_time :: "64 word"
  block_height :: "32 word"
  stake_weight :: "64 word"

record ConsensusState =
  current_height :: "32 word"
  best_block_hash :: Hash256
  total_chain_work :: "64 word"
  current_difficulty :: "32 word"
  validators :: "Hash256 \<rightharpoonup> Validator"
  stakes :: "Hash256 \<rightharpoonup> StakeEntry"
  upcoming_slots :: "BlockSlot list"
  total_stake :: "64 word"
  min_stake_amount :: "64 word"
  stake_maturity_blocks :: "32 word"
  pos_activation_height :: "32 word"
  pos_weight_ratio :: real

section \<open>Validator registry (hybrid_consensus.cpp)\<close>

text \<open>
  The engine's methods act on its \<open>state_\<close>; each is a function from the state to the
  result and the new state.
\<close>

definition add_validator ::
  "ConsensusState \<Rightarrow> Hash256 \<Rightarrow> byte list \<Rightarrow> 64 word \<Rightarrow> bool \<times> ConsensusState" where
  "add_validator s vid pk new_stake =
     (if new_stake < min_stake_amount s then (False, s)
      else
        let new_validator =
              \<lparr>validator_id = vid, stake_amount = new_stake, last_block_time = 0,
               reputation_score = 100, is_active = True, public_key = pk,
               total_blocks_created = 0, missed_slots = 0\<rparr>;
            stake =
              \<lparr>stake_validator_id = vid, amount = new_stake,
               lock_height = current_height s + stake_maturity_blocks s, is_locked = True\<rparr>
        in (True, s\<lparr>validators := (validators s)(vid \<mapsto> new_validator),
                     stakes := (stakes s)(vid \<mapsto> stake),
                     total_stake := total_stake s + new_stake\<rparr>))"

text \<open>The sum of the amounts of all stored stake entries, as a plain number.\<close>

definition stake_sum :: "ConsensusState \<Rightarrow> nat" where
  "stake_sum s = (\<Sum>k \<in> dom (stakes s). unat (amount (the (stakes s k))))"

text \<open>
  \<open>std::max(0u, reputation_score - penalty_points)\<close>: both operands are
  \<open>uint32_t\<close>, so the difference is taken modulo \<open>2 ^ 32\<close> before the maximum.
\<close>

definition penalize_validator :: "ConsensusState \<Rightarrow> Hash256 \<Rightarrow> 32 word \<Rightarrow> ConsensusState" where
  "penalize_validator s vid penalty_points =
     (case validators s vid of
        None \<Rightarrow> s
      | Some v \<Rightarrow>
          let v1 = v\<lparr>reputation_score := max 0 (reputation_score v - penalty_points)\<rparr>;
              v2 = v1\<lparr>missed_slots := missed_slots v1 + 1\<rparr>;
              v3 = (if reputation_score v2 < 10 then v2\<lparr>is_active := False\<rparr> else v2)
          in s\<lparr>validators := (validators s)(vid \<mapsto> v3)\<rparr>)"

definition reward_validator :: "ConsensusState \<Rightarrow> Hash256 \<Rightarrow> 32 word \<Rightarrow> ConsensusState" where
  "reward_validator s vid reward_points =
     (case validators s vid of
        None \<Rightarrow> s
      | Some v \<Rightarrow>
          let v1 = v\<lparr>reputation_score := min 100 (reputation_score v + reward_points)\<rparr>;
              v2 = (if reputation_score v1 \<ge> 50 \<and> \<not> is_active v1
                    then v1\<lparr>is_active := True\<rparr> else v1)
          in s\<lparr>validators := (validators s)(vid \<mapsto> v2)\<rparr>)"

section \<open>Validator selection (hybrid_consensus.cpp)\<close>

definition is_validator_eligible :: "ConsensusState \<Rightarrow> Hash256 \<Rightarrow> 64 word \<Rightarrow> bool" where
  "is_validator_eligible s vid slot =
     (case validators s vid of
        None \<Rightarrow> False
      | Some v \<Rightarrow>
          if \<not> is_active v then False
          else (case stakes s vid of
                  None \<Rightarrow> False
                | Some st \<Rightarrow>
                    if is_locked st then False
                    else if last_block_time v > 0 \<and> slot < last_block_time v + 30 then False
                    else True))"

definition calculate_validator_selection_weight ::
  "ConsensusState \<Rightarrow> Validator \<Rightarrow> 64 word \<Rightarrow> real" where
  "calculate_validator_selection_weight s v slot =
     (let stake_weight = real (unat (stake_amount v)) / real (unat (total_stake s));
          reputation_factor = 0.5 + real (unat (reputation_score v)) / 100;
          time_factor = (if last_block_time v > 0
                         then min 2 (1 + real (unat (slot - last_block_time v)) / 3600)
                         else 1);
          activity_factor = max 0.1 (1 - real (unat (missed_slots v)) * 0.1)
      in stake_weight * reputation_factor * time_factor * activity_factor)"

text \<open>\<open>std::to_string\<close> of an unsigned number: its decimal digits in ASCII.\<close>

function to_string :: "nat \<Rightarrow> byte list" where
  "to_string n = (if n < 10 then [48 + of_nat n]
                  else to_string (n div 10) @ [48 + of_nat (n mod 10)])"
  by pat_completeness auto
termination
  by (relation "measure id") auto

declare to_string.simps [simp del]

text \<open>The number a string of decimal digits denotes.\<close>

definition decimal_value :: "byte list \<Rightarrow> nat" where
  "decimal_value ds = foldl (\<lambda>acc d. 10 * acc + (unat d - 48)) 0 ds"

text \<open>
  Lines 107-118: the seed bytes are the decimal string of the slot time followed by the
  32 bytes of the previous block hash; they are hashed once; the first eight bytes of the
  hash are shifted into a \<open>uint64_t\<close>, the first byte ending up most significant.
\<close>

definition selection_seed_data :: "64 word \<Rightarrow> Hash256 \<Rightarrow> byte list" where
  "selection_seed_data slot previous_block_hash = to_string (unat slot) @ previous_block_hash"

definition selection_seed_hash :: "64 word \<Rightarrow> Hash256 \<Rightarrow> Hash256" where
  "selection_seed_hash slot previous_block_hash =
     sha256 (selection_seed_data slot previous_block_hash)"

definition seed_value_of :: "Hash256 \<Rightarrow> 64 word" where
  "seed_value_of seed_hash =
     foldl (\<lambda>acc i. push_bit 8 acc OR ucast (seed_hash ! i)) 0 [0..<8]"

definition selection_seed_value :: "64 word \<Rightarrow> Hash256 \<Rightarrow> 64 word" where
  "selection_seed_value slot previous_block_hash =
     seed_value_of (selection_seed_hash slot previous_block_hash)"

text \<open>The selection loop of lines 143-148; \<open>None\<close> when it runs off the end.\<close>

fun pick_weighted :: "real \<Rightarrow> real \<Rightarrow> (Hash256 \<times> real) list \<Rightarrow> Hash256 option" where
  "pick_weighted random_value accumulated [] = None"
| "pick_weighted random_value accumulated ((vid, weight) # rest) =
     (if random_value \<le> accumulated + weight then Some vid
      else pick_weighted random_value (accumulated + weight) rest)"

text \<open>
  \<open>uniform01\<close> stands for the library part: the first draw of
  \<open>std::uniform_real_distribution<double>(0.0, 1.0)\<close> from a \<open>std::mt19937_64\<close>
  seeded with the given value. It is a function of the seed alone.
\<close>

definition select_validator_by_stake ::
  "(64 word \<Rightarrow> real) \<Rightarrow> ConsensusState \<Rightarrow> 64 word \<Rightarrow> Hash256 \<Rightarrow> Hash256" where
  "select_validator_by_stake uniform01 s slot previous_block_hash =
     (if validators s = Map.empty \<or> total_stake s = 0 then zero_hash
      else
        let seed_value = selection_seed_value slot previous_block_hash;
            eligible = filter (\<lambda>vid. is_active (the (validators s vid))
                                     \<and> is_validator_eligible s vid slot)
                         (sorted_list_of_set (dom (validators s)));
            validator_weights =
              map (\<lambda>vid. (vid, calculate_validator_selection_weight s
                                  (the (validators s vid)) slot)) eligible;
            total_weight = foldl (+) 0 (map snd validator_weights)
        in if validator_weights = [] \<or> total_weight \<le> 0 then zero_hash
           else (case pick_weighted (uniform01 seed_value * total_weight) 0 validator_weights of
                   Some vid \<Rightarrow> vid
                 | None \<Rightarrow> fst (last validator_weights)))"

text \<open>The seed the specification describes: eight little-endian bytes, hashed twice.\<close>

definition encode_u64_le :: "64 word \<Rightarrow> byte list" where
  "encode_u64_le v = map (\<lambda>i. ucast (drop_bit (8 * i) v)) [0..<8]"

definition spec_selection_seed :: "64 word \<Rightarrow> Hash256 \<Rightarrow> Hash256" where
  "spec_selection_seed slot previous_block_hash =
     double_hash (encode_u64_le slot @ previous_block_hash)"

text \<open>States used to run the code on concrete inputs.\<close>

definition validator_a :: Hash256 where
  "validator_a = replicate 32 1"

definition sample_validator :: Validator where
  "sample_validator =
     \<lparr>validator_id = validator_a, stake_amount = 2000000, last_block_time = 0,
      reputation_score = 100, is_active = True, public_key = [],
      total_blocks_created = 0, missed_slots = 0\<rparr>"

definition sample_stake :: StakeEntry where
  "sample_stake =
     \<lparr>stake_validator_id = validator_a, amount = 2000000, lock_height = 100,
      is_locked = False\<rparr>"

definition sample_state :: ConsensusState where
  "sample_state =
     \<lparr>current_height = 100, best_block_hash = zero_hash, total_chain_work = 0,
      current_difficulty = 0x1d00ffff,
      validators = [validator_a \<mapsto> sample_validator],
      stakes = [validator_a \<mapsto> sample_stake],
      upcoming_slots = [], total_stake = 2000000, min_stake_amount = 1000000,
      stake_maturity_blocks = 100, pos_activation_height = 1000, pos_weight_ratio = 0.5\<rparr>"

definition mid_draw :: "64 word \<Rightarrow> real" where
  "mid_draw seed = 1 / 2"

text \<open>
  A second generator that agrees with \<open>mid_draw\<close> at one seed, a generator with a
  high draw, and a state with two eligible validators of equal weight.
\<close>

definition other_draw :: "64 word \<Rightarrow> real" where
  "other_draw seed = (if seed = selection_seed_value 0 zero_hash then 1 / 2 else 0)"

definition high_draw :: "64 word \<Rightarrow> real" where
  "high_draw seed = 9 / 10"

definition validator_b :: Hash256 where
  "validator_b = replicate 32 2"

definition two_validator_state :: ConsensusState where
  "two_validator_state =
     sample_state
       \<lparr>validators := [validator_a \<mapsto> sample_validator,
                       validator_b \<mapsto> sample_validator\<lparr>validator_id := validator_b\<rparr>],
        stakes := [validator_a \<mapsto> sample_stake,
                   validator_b \<mapsto> sample_stake\<lparr>stake_validator_id := validator_b\<rparr>],
        total_stake := 4000000\<rparr>"


section \<open>Merkle tree (crypto.cpp)\<close>

text \<open>
  A \<open>MerkleTree\<close> object is its \<open>levels_\<close>, leaves first. \<open>next_level\<close> is
  the \<open>for\<close> loop of \<open>build_tree\<close> (lines 238-258), which hashes each pair with
  \<open>SHA256::hash\<close> and pairs a last single hash with itself; \<open>build_tree\<close> is the
  \<open>while\<close> loop around it. The constructor calls it on a non-empty \<open>levels_\<close>
  only. Indices are \<open>size_t\<close> values within the vectors, modelled by natural numbers.
\<close>

fun next_level :: "Hash256 list \<Rightarrow> Hash256 list" where
  "next_level [] = []"
| "next_level [x] = [sha256 (x @ x)]"
| "next_level (x # y # rest) = sha256 (x @ y) # next_level rest"

function build_tree :: "Hash256 list list \<Rightarrow> Hash256 list list" where
  "build_tree levels =
     (if levels \<noteq> [] \<and> length (last levels) > 1
      then build_tree (levels @ [next_level (last levels)])
      else levels)"
  by pat_completeness auto
termination
proof (relation "measure (\<lambda>levels. length (last levels))")
  show "wf (measure (\<lambda>levels. length (last levels)))"
    by simp
next
  fix levels :: "Hash256 list list"
  assume a: "levels \<noteq> [] \<and> 1 < length (last levels)"
  have len: "length (next_level xs) = (length xs + 1) div 2" for xs
    by (induction xs rule: next_level.induct) simp_all
  have "(length (last levels) + 1) div 2 < length (last levels)"
    using a by arith
  then show "(levels @ [next_level (last levels)], levels) \<in> measure (\<lambda>levels. length (last levels))"
    by (simp add: len)
qed

declare build_tree.simps [simp del]

text \<open>The constructor (lines 217-224), \<open>get_root\<close>, \<open>get_proof\<close> and \<open>verify_proof\<close>.\<close>

definition MerkleTree :: "Hash256 list \<Rightarrow> Hash256 list list" where
  "MerkleTree leaf_hashes = (if leaf_hashes = [] then [] else build_tree [leaf_hashes])"

definition get_root :: "Hash256 list list \<Rightarrow> Hash256" where
  "get_root levels = (if levels = [] \<or> last levels = [] then zero_hash else hd (last levels))"

fun proof_path :: "Hash256 list list \<Rightarrow> nat \<Rightarrow> Hash256 list" where
  "proof_path [] current_index = []"
| "proof_path [root_level] current_index = []"
| "proof_path (current_level # upper) current_index =
     (let sibling_index = (if current_index mod 2 = 0 then current_index + 1
                           else current_index - 1)
      in (if sibling_index < length current_level then current_level ! sibling_index
          else current_level ! current_index)
         # proof_path upper (current_index div 2))"

definition get_proof :: "Hash256 list list \<Rightarrow> nat \<Rightarrow> Hash256 list" where
  "get_proof levels leaf_index =
     (if levels = [] \<or> leaf_index \<ge> length (hd levels) then []
      else proof_path levels leaf_index)"

fun verify_path :: "Hash256 \<Rightarrow> nat \<Rightarrow> Hash256 list \<Rightarrow> Hash256" where
  "verify_path current_hash current_index [] = current_hash"
| "verify_path current_hash current_index (proof_hash # rest) =
     verify_path
       (sha256 (if current_index mod 2 = 0 then current_hash @ proof_hash
                else proof_hash @ current_hash))
       (current_index div 2) rest"

definition verify_proof :: "Hash256 \<Rightarrow> Hash256 list \<Rightarrow> Hash256 \<Rightarrow> nat \<Rightarrow> nat \<Rightarrow> bool" where
  "verify_proof leaf_hash proof_hashes root_hash leaf_index tree_size \<longleftrightarrow>
     verify_path leaf_hash leaf_index proof_hashes = root_hash"

text \<open>Each level above the first is \<open>next_level\<close> of the one below it.\<close>

fun chained :: "Hash256 list list \<Rightarrow> bool" where
  "chained [] = True"
| "chained [root_level] = True"
| "chained (lower # upper # rest) = (upper = next_level lower \<and> chained (upper # rest))"

section \<open>Transactions and blocks (transaction.cpp, block.cpp)\<close>

record TxInput =
  prev_tx_hash :: Hash256
  prev_output_index :: "32 word"
  script_sig :: "byte list"
  sequence :: "32 word"

text \<open>The field \<open>value\<close> of \<open>TxOutput\<close> is \<open>output_value\<close> here.\<close>

record TxOutput =
  output_value :: "64 word"
  script_pubkey :: "byte list"

record TxWitness =
  witness_items :: "byte list list"

record Transaction =
  cached_hash :: "Hash256 option"
  cached_wtxid :: "Hash256 option"
  version :: "32 word"
  inputs :: "TxInput list"
  outputs :: "TxOutput list"
  witnesses :: "TxWitness list"
  locktime :: "32 word"

definition write_varint :: "64 word \<Rightarrow> byte list" where
  "write_varint v =
     (if v < 0xFD then [ucast v]
      else if v \<le> 0xFFFF then [0xFD, ucast (v AND 0xFF), ucast (drop_bit 8 v AND 0xFF)]
      else if v \<le> 0xFFFFFFFF
           then 0xFE # map (\<lambda>i. ucast (drop_bit (i * 8) v AND 0xFF)) [0..<4]
           else 0xFF # map (\<lambda>i. ucast (drop_bit (i * 8) v AND 0xFF)) [0..<8])"

definition write_uint32_le :: "32 word \<Rightarrow> byte list" where
  "write_uint32_le v = map (\<lambda>i. ucast (drop_bit (i * 8) v AND 0xFF)) [0..<4]"

definition write_uint64_le :: "64 word \<Rightarrow> byte list" where
  "write_uint64_le v = map (\<lambda>i. ucast (drop_bit (i * 8) v AND 0xFF)) [0..<8]"

definition write_bytes :: "byte list \<Rightarrow> byte list" where
  "write_bytes bytes = write_varint (word_of_nat (length bytes)) @ bytes"

definition TxInput_serialize :: "TxInput \<Rightarrow> byte list" where
  "TxInput_serialize i =
     prev_tx_hash i @ write_uint32_le (prev_output_index i) @ write_bytes (script_sig i)
       @ write_uint32_le (sequence i)"

definition TxOutput_serialize :: "TxOutput \<Rightarrow> byte list" where
  "TxOutput_serialize out = write_uint64_le (output_value out) @ write_bytes (script_pubkey out)"

definition serialize_legacy :: "Transaction \<Rightarrow> byte list" where
  "serialize_legacy tx =
     write_uint32_le (version tx)
       @ write_varint (word_of_nat (length (inputs tx)))
       @ concat (map TxInput_serialize (inputs tx))
       @ write_varint (word_of_nat (length (outputs tx)))
       @ concat (map TxOutput_serialize (outputs tx))
       @ write_uint32_le (locktime tx)"

text \<open>
  \<open>Transaction::get_hash\<close> returns the cached hash when there is one and otherwise
  computes and caches the double SHA-256 of the legacy serialization; the result is the
  hash together with the transaction as it is afterwards.
\<close>

definition get_hash :: "Transaction \<Rightarrow> Hash256 \<times> Transaction" where
  "get_hash tx =
     (case cached_hash tx of
        Some h \<Rightarrow> (h, tx)
      | None \<Rightarrow> (let h = double_hash (serialize_legacy tx) in (h, tx\<lparr>cached_hash := Some h\<rparr>)))"



record BlockHeader =
  header_version :: "32 word"
  prev_block_hash :: Hash256
  merkle_root :: Hash256
  timestamp :: "32 word"
  difficulty_target :: "32 word"
  nonce :: "32 word"
  height :: "32 word"

record Block =
  block_cached_hash :: "Hash256 option"
  cached_merkle :: "Hash256 option"
  header :: BlockHeader
  transactions :: "Transaction list"

text \<open>
  \<open>Block::calculate_merkle_root\<close> (lines 309-328): the cached root when there is one;
  otherwise the all-zero hash for no transactions, and the root of the tree over the
  transaction hashes, the result being cached either way.
\<close>

definition calculate_merkle_root :: "Block \<Rightarrow> Hash256 \<times> Block" where
  "calculate_merkle_root b =
     (case cached_merkle b of
        Some m \<Rightarrow> (m, b)
      | None \<Rightarrow>
          if transactions b = [] then (zero_hash, b\<lparr>cached_merkle := Some zero_hash\<rparr>)
          else
            let hashed = map get_hash (transactions b);
                tree = MerkleTree (map fst hashed)
            in (get_root tree,
                b\<lparr>transactions := map snd hashed, cached_merkle := Some (get_root tree)\<rparr>))"

section \<open>UTXO set (transaction.hpp; specification 4.2)\<close>














text \<open>
  A transaction with one input and one output, with its hash cached, and a set that holds
  the output it spends.
\<close>

definition sample_txid :: Hash256 where
  "sample_txid =
     [0x48, 0xed, 0x96, 0x47, 0x2b, 0x38, 0x3a, 0xd0, 0x53, 0x5d, 0x2d, 0x25, 0x3b, 0xa5, 0x9d, 0x90,
      0x18, 0x99, 0xdb, 0xbf, 0x2d, 0xf8, 0x9f, 0x84, 0xe9, 0xff, 0x8b, 0x2a, 0x9c, 0x28, 0xe5, 0xdb]"

definition sample_tx :: Transaction where
  "sample_tx =
     \<lparr>cached_hash = Some sample_txid, cached_wtxid = None, version = 2,
      inputs = [\<lparr>prev_tx_hash = replicate 32 1, prev_output_index = 0, script_sig = [],
                 sequence = 0xFFFFFFFF\<rparr>],
      outputs = [\<lparr>output_value = 900, script_pubkey = []\<rparr>],
      witnesses = [], locktime = 0\<rparr>"







definition sample_coinbase :: Transaction where
  "sample_coinbase =
     \<lparr>cached_hash = None, cached_wtxid = None, version = 2,
      inputs = [\<lparr>prev_tx_hash = zero_hash, prev_output_index = 0xFFFFFFFF, script_sig = [],
                 sequence = 0xFFFFFFFF\<rparr>],
      outputs = [\<lparr>output_value = 5000000000, script_pubkey = []\<rparr>],
      witnesses = [], locktime = 0\<rparr>"

definition sample_block :: Block where
  "sample_block =
     \<lparr>block_cached_hash = None, cached_merkle = None,
      header = \<lparr>header_version = 1, prev_block_hash = zero_hash, merkle_root = zero_hash,
                 timestamp = 1231006505, difficulty_target = 0x1d00ffff, nonce = 0, height = 1\<rparr>,
      transactions = [sample_coinbase, sample_tx]\<rparr>"

section \<open>Results: SHA-256\<close>

lemma sha256_abc:
  "sha256 [0x61, 0x62, 0x63] =
     [0xba, 0x78, 0x16, 0xbf, 0x8f, 0x01, 0xcf, 0xea, 0x41, 0x41, 0x40, 0xde, 0x5d, 0xae, 0x22, 0x23,
      0xb0, 0x03, 0x61, 0xa3, 0x96, 0x17, 0x7a, 0x9c, 0xb4, 0x10, 0xff, 0x61, 0xf2, 0x00, 0x15, 0xad]"
  by code_simp

section \<open>Results: proof of work\<close>

lemma sha256_nonce0:
  "sha256 [0, 0, 0, 0] =
     [0xdf, 0x3f, 0x61, 0x98, 0x04, 0xa9, 0x2f, 0xdb, 0x40, 0x57, 0x19, 0x2d, 0xc4, 0x3d, 0xd7, 0x48,
      0xea, 0x77, 0x8a, 0xdc, 0x52, 0xbc, 0x49, 0x8c, 0xe8, 0x05, 0x24, 0xc0, 0x14, 0xb8, 0x11, 0x19]"
  by code_simp

lemma sha256_nonce0_twice:
  "sha256 [0xdf, 0x3f, 0x61, 0x98, 0x04, 0xa9, 0x2f, 0xdb, 0x40, 0x57, 0x19, 0x2d, 0xc4, 0x3d, 0xd7, 0x48,
      0xea, 0x77, 0x8a, 0xdc, 0x52, 0xbc, 0x49, 0x8c, 0xe8, 0x05, 0x24, 0xc0, 0x14, 0xb8, 0x11, 0x19] =
     [0x8c, 0xb9, 0x01, 0x25, 0x17, 0xc8, 0x17, 0xfe, 0xad, 0x65, 0x02, 0x87, 0xd6, 0x1b, 0xdd, 0x9c,
      0x68, 0x80, 0x3b, 0x6b, 0xf9, 0xc6, 0x41, 0x33, 0xdc, 0xab, 0x3e, 0x65, 0xb5, 0xa5, 0x0c, 0xb9]"
  by code_simp

lemma compute_block_hash_empty_0:
  "compute_block_hash [] 0 =
     [0x8c, 0xb9, 0x01, 0x25, 0x17, 0xc8, 0x17, 0xfe, 0xad, 0x65, 0x02, 0x87, 0xd6, 0x1b, 0xdd, 0x9c,
      0x68, 0x80, 0x3b, 0x6b, 0xf9, 0xc6, 0x41, 0x33, 0xdc, 0xab, 0x3e, 0x65, 0xb5, 0xa5, 0x0c, 0xb9]"
proof -
  have "le32_bytes 0 = [0, 0, 0, 0]"
    by (simp add: le32_bytes_def upt_rec)
  then show ?thesis
    by (simp add: compute_block_hash_def double_hash_def sha256_nonce0 sha256_nonce0_twice)
qed

lemma bits_to_target_0a: "bits_to_target 0x0affffff = Some 0xff00000000000000"
  by (simp add: bits_to_target_def)

lemma hash_value_nonce0:
  "hash_value [0x8c, 0xb9, 0x01, 0x25, 0x17, 0xc8, 0x17, 0xfe, 0xad, 0x65, 0x02, 0x87, 0xd6, 0x1b, 0xdd, 0x9c,
      0x68, 0x80, 0x3b, 0x6b, 0xf9, 0xc6, 0x41, 0x33, 0xdc, 0xab, 0x3e, 0x65, 0xb5, 0xa5, 0x0c, 0xb9]
     = 0xfe17c8172501b98c"
  by (simp add: hash_value_def upt_rec)

lemma be_nat_nonce0:
  "2 ^ 255 < be_nat [0x8c, 0xb9, 0x01, 0x25, 0x17, 0xc8, 0x17, 0xfe, 0xad, 0x65, 0x02, 0x87, 0xd6, 0x1b, 0xdd, 0x9c,
      0x68, 0x80, 0x3b, 0x6b, 0xf9, 0xc6, 0x41, 0x33, 0xdc, 0xab, 0x3e, 0x65, 0xb5, 0xa5, 0x0c, 0xb9]"
  by (simp add: be_nat_def)

lemma spec_target_0a: "spec_target 0x0affffff = 0xffffff * 256 ^ 7"
  by (simp add: spec_target_def)

text \<open>
  Claim C1. The specification wants the check to accept exactly when the double SHA-256,
  read as a 256-bit big-endian number, is at most the expanded target. The miner's check
  compares the first eight bytes of the hash, read least significant first, with a 64-bit
  truncation of the target. For empty block data, nonce 0 and compact target
  \<open>0x0affffff\<close> the check accepts although the hash, as a 256-bit number, is far above
  the target \<open>0xffffff * 256 ^ 7\<close>.
\<close>

theorem pow_check_accepts_hash_above_target:
  "verify_proof_of_work [] 0 0x0affffff = Some True
   \<and> \<not> be_nat (compute_block_hash [] 0) \<le> spec_target 0x0affffff"
proof -
  have "verify_proof_of_work [] 0 0x0affffff = Some True"
    by (simp add: verify_proof_of_work_def compute_block_hash_empty_0 meets_difficulty_target_def
          bits_to_target_0a hash_value_nonce0)
  moreover have "spec_target 0x0affffff < 2 ^ 255"
    by (simp add: spec_target_0a)
  ultimately show ?thesis
    using be_nat_nonce0 by (simp add: compute_block_hash_empty_0)
qed

section \<open>Results: difficulty adjustment\<close>

lemma enforce_difficulty_limits_const: "enforce_difficulty_limits b = 0x207fffff"
  by (auto simp: enforce_difficulty_limits_def MAX_DIFFICULTY_BITS_def MIN_DIFFICULTY_BITS_def
        Let_def word_less_nat_alt word_le_nat_alt)

lemma is_valid_difficulty_target_never: "\<not> is_valid_difficulty_target b"
  by (auto simp: is_valid_difficulty_target_def MAX_DIFFICULTY_BITS_def MIN_DIFFICULTY_BITS_def
        word_less_nat_alt word_le_nat_alt)

lemma spec_target_max_bits: "spec_target 0x1d00ffff = 0xffff * 256 ^ 26"
  by (simp add: spec_target_def)

lemma spec_target_min_bits: "spec_target 0x207fffff = 0x7fffff * 256 ^ 29"
  by (simp add: spec_target_def)

text \<open>
  Claim C2. The specification wants the new target within a factor of four of the old one.
  The limits are compared as compact numbers, and \<open>MAX_DIFFICULTY_BITS = 0x1d00ffff\<close>
  is numerically below \<open>MIN_DIFFICULTY_BITS = 0x207fffff\<close>: whatever the
  floating-point step yields, the first limit brings it to at most \<open>0x1d00ffff\<close> and
  the second then replaces it by \<open>0x207fffff\<close>. So every call returns
  \<open>0x207fffff\<close>; from \<open>0x1d00ffff\<close> with the actual span equal to the expected one
  the expanded target grows by far more than four times.
\<close>

theorem next_difficulty_always_minimum_bits:
  "calculate_next_difficulty scaled_bits current actual_time_span target_time_span
     = 0x207fffff
   \<and> 4 * spec_target 0x1d00ffff
       < spec_target (calculate_next_difficulty scaled_bits 0x1d00ffff 1209600 1209600)"
  by (simp add: calculate_next_difficulty_def enforce_difficulty_limits_const
        spec_target_max_bits spec_target_min_bits)

section \<open>Results: block timestamps\<close>

text \<open>
  Claim C9, as stated, fails: the check takes one earlier timestamp, that of the previous
  block, and no median is computed anywhere. With previous timestamps 1 to 11 (median 6,
  last 11) a block stamped 8 is above the median and within the drift, yet rejected.
\<close>

theorem validate_timestamp_not_median:
  "\<not> (validate_timestamp 8 (last [1, 2, 3, 4, 5, 6, 7, 8, 9, 10, 11]) 100
        \<longleftrightarrow> spec_timestamp_rule 8 [1, 2, 3, 4, 5, 6, 7, 8, 9, 10, 11] 100)"
  by (simp add: validate_timestamp_def spec_timestamp_rule_def spec_median_def)

text \<open>
  Claim C9, amended. The check accepts exactly when the block's timestamp is strictly
  greater than the previous block's timestamp and at most \<open>current_time + 7200\<close>, the sum
  taken in 64-bit unsigned arithmetic; when that sum does not wrap this is the comparison
  of the plain numbers.
\<close>

theorem validate_timestamp_previous_block:
  "(validate_timestamp block_timestamp previous_block_timestamp current_time
      \<longleftrightarrow> previous_block_timestamp < block_timestamp \<and> block_timestamp \<le> current_time + 7200)
   \<and> (unat current_time + 7200 < 2 ^ 64 \<longrightarrow>
        (validate_timestamp block_timestamp previous_block_timestamp current_time
           \<longleftrightarrow> unat previous_block_timestamp < unat block_timestamp
               \<and> unat block_timestamp \<le> unat current_time + 7200))"
proof -
  have w: "validate_timestamp block_timestamp previous_block_timestamp current_time
      \<longleftrightarrow> previous_block_timestamp < block_timestamp \<and> block_timestamp \<le> current_time + 7200"
    by (auto simp: validate_timestamp_def)
  have "unat (current_time + 7200) = unat current_time + 7200"
    if "unat current_time + 7200 < 2 ^ 64"
    using that by (simp add: unat_word_ariths)
  then show ?thesis
    using w by (auto simp: word_less_nat_alt word_le_nat_alt)
qed

theorem validate_timestamp_previous_block_witness:
  "unat (100 :: 64 word) + 7200 < 2 ^ 64 \<and> validate_timestamp 8 7 100
   \<and> \<not> validate_timestamp 7 7 100 \<and> \<not> validate_timestamp 7301 7 100"
  using validate_timestamp_previous_block [of 8 7 100]
    validate_timestamp_previous_block [of 7 7 100]
    validate_timestamp_previous_block [of 7301 7 100]
  by simp

section \<open>Results: validator registry\<close>

lemma penalize_validator_in_range:
  assumes "validators s vid = Some v" and "penalty_points \<le> reputation_score v"
  shows "validators (penalize_validator s vid penalty_points) vid =
           Some (v\<lparr>reputation_score := reputation_score v - penalty_points,
                    missed_slots := missed_slots v + 1,
                    is_active := (if reputation_score v - penalty_points < 10 then False
                                  else is_active v)\<rparr>)"
  using assms by (simp add: penalize_validator_def Let_def max_def)

text \<open>
  Claim C6. The specification wants \<open>max(0, r - p)\<close>. The subtraction is unsigned:
  a penalty above the current reputation wraps around instead of stopping at 0. A validator
  with reputation 100 penalised by 101 ends with reputation \<open>2 ^ 32 - 1\<close> and stays
  active, where the claim has reputation 0 and the validator deactivated. For penalties up
  to the current reputation the code does what the claim says
  (\<open>penalize_validator_in_range\<close>).
\<close>

theorem penalize_validator_wraps_below_zero:
  "map_option reputation_score
     (validators (penalize_validator sample_state validator_a 101) validator_a) = Some 4294967295
   \<and> map_option is_active
     (validators (penalize_validator sample_state validator_a 101) validator_a) = Some True
   \<and> map_option missed_slots
     (validators (penalize_validator sample_state validator_a 101) validator_a) = Some 1"
  by (simp add: penalize_validator_def sample_state_def sample_validator_def Let_def)

lemma stake_sum_replace:
  assumes "stakes s vid = Some old_e" and "finite (dom (stakes s))"
  shows "stake_sum (s\<lparr>validators := vs, stakes := (stakes s)(vid \<mapsto> e), total_stake := t\<rparr>)
           + unat (amount old_e) = stake_sum s + unat (amount e)"
proof -
  let ?D = "dom (stakes s)"
  have vid: "vid \<in> ?D" using assms(1) by auto
  have dom_eq: "dom ((stakes s)(vid \<mapsto> e)) = ?D" using vid by auto
  have "(\<Sum>k \<in> ?D. unat (amount (the (((stakes s)(vid \<mapsto> e)) k))))
          = unat (amount e) + (\<Sum>k \<in> ?D - {vid}. unat (amount (the (((stakes s)(vid \<mapsto> e)) k))))"
    using assms(2) vid by (simp add: sum.remove)
  also have "(\<Sum>k \<in> ?D - {vid}. unat (amount (the (((stakes s)(vid \<mapsto> e)) k))))
          = (\<Sum>k \<in> ?D - {vid}. unat (amount (the (stakes s k))))"
    by (rule sum.cong) auto
  finally have new: "stake_sum (s\<lparr>validators := vs, stakes := (stakes s)(vid \<mapsto> e), total_stake := t\<rparr>)
      = unat (amount e) + (\<Sum>k \<in> ?D - {vid}. unat (amount (the (stakes s k))))"
    using vid by (simp add: stake_sum_def insert_absorb)
  have old: "stake_sum s = unat (amount old_e) + (\<Sum>k \<in> ?D - {vid}. unat (amount (the (stakes s k))))"
    using assms vid by (simp add: stake_sum_def sum.remove)
  show ?thesis using new old by simp
qed

text \<open>
  Claim C10. Registering an id that is already registered, with a stake of at least the
  minimum, succeeds; the validator and the stake entry of that id are replaced by fresh
  ones (reputation 100, active, locked until \<open>current_height + stake_maturity_blocks\<close>);
  \<open>total_stake\<close> grows by the whole new amount, while the sum of the stored entries
  grows by the new amount less the replaced one. So from a state whose \<open>total_stake\<close>
  equals that sum, \<open>total_stake\<close> ends above it.
\<close>

theorem add_validator_replaces_registered:
  assumes "min_stake_amount s \<le> new_stake"
    and "validators s vid = Some old_v"
    and "stakes s vid = Some old_e"
    and "finite (dom (stakes s))"
  shows "fst (add_validator s vid pk new_stake)
    \<and> validators (snd (add_validator s vid pk new_stake)) =
        (validators s)(vid \<mapsto>
          \<lparr>validator_id = vid, stake_amount = new_stake, last_block_time = 0,
           reputation_score = 100, is_active = True, public_key = pk,
           total_blocks_created = 0, missed_slots = 0\<rparr>)
    \<and> stakes (snd (add_validator s vid pk new_stake)) =
        (stakes s)(vid \<mapsto>
          \<lparr>stake_validator_id = vid, amount = new_stake,
           lock_height = current_height s + stake_maturity_blocks s, is_locked = True\<rparr>)
    \<and> total_stake (snd (add_validator s vid pk new_stake)) = total_stake s + new_stake
    \<and> stake_sum (snd (add_validator s vid pk new_stake)) + unat (amount old_e)
        = stake_sum s + unat new_stake
    \<and> (unat (total_stake s) = stake_sum s \<and> 0 < amount old_e
          \<and> unat (total_stake s) + unat new_stake < 2 ^ 64
        \<longrightarrow> stake_sum (snd (add_validator s vid pk new_stake))
              < unat (total_stake (snd (add_validator s vid pk new_stake))))"
proof -
  let ?e = "\<lparr>stake_validator_id = vid, amount = new_stake,
           lock_height = current_height s + stake_maturity_blocks s, is_locked = True\<rparr>"
  have ok: "\<not> new_stake < min_stake_amount s"
    using assms(1) by (simp add: not_less)
  have sum: "stake_sum (snd (add_validator s vid pk new_stake)) + unat (amount old_e)
        = stake_sum s + unat new_stake"
    using stake_sum_replace [OF assms(3) assms(4), of _ ?e] ok
    by (simp add: add_validator_def Let_def)
  have tot: "total_stake (snd (add_validator s vid pk new_stake)) = total_stake s + new_stake"
    using ok by (simp add: add_validator_def Let_def)
  have "stake_sum (snd (add_validator s vid pk new_stake))
              < unat (total_stake (snd (add_validator s vid pk new_stake)))"
    if "unat (total_stake s) = stake_sum s" "0 < amount old_e"
       "unat (total_stake s) + unat new_stake < 2 ^ 64"
  proof -
    have "unat (total_stake s + new_stake) = unat (total_stake s) + unat new_stake"
      using that(3) by (simp add: unat_word_ariths)
    moreover have "0 < unat (amount old_e)"
      using that(2) by (simp add: word_less_nat_alt)
    ultimately show ?thesis using sum tot that(1) by simp
  qed
  then show ?thesis
    using ok sum tot by (simp add: add_validator_def Let_def)
qed

lemma stake_sum_sample: "stake_sum (snd (add_validator sample_state validator_a [] 3000000)) = 3000000"
  by (simp add: stake_sum_def add_validator_def sample_state_def Let_def)

theorem add_validator_replaces_registered_witness:
  "min_stake_amount sample_state \<le> 3000000
   \<and> validators sample_state validator_a = Some sample_validator
   \<and> stakes sample_state validator_a = Some sample_stake
   \<and> finite (dom (stakes sample_state))
   \<and> fst (add_validator sample_state validator_a [] 3000000)
   \<and> total_stake (snd (add_validator sample_state validator_a [] 3000000)) = 5000000
   \<and> stake_sum (snd (add_validator sample_state validator_a [] 3000000)) = 3000000"
proof -
  have h1: "min_stake_amount sample_state \<le> 3000000"
    by (simp add: sample_state_def)
  have h2: "validators sample_state validator_a = Some sample_validator"
    by (simp add: sample_state_def)
  have h3: "stakes sample_state validator_a = Some sample_stake"
    by (simp add: sample_state_def)
  have h4: "finite (dom (stakes sample_state))"
    by (simp add: sample_state_def)
  have h5: "total_stake sample_state = 2000000" "amount sample_stake = 2000000"
    "stake_sum sample_state = 2000000"
    by (simp_all add: sample_state_def sample_stake_def stake_sum_def)
  show ?thesis
    using add_validator_replaces_registered [OF h1 h2 h3 h4, of "[]"] h1 h2 h3 h4 h5
    by simp
qed

section \<open>Results: validator selection\<close>

text \<open>
  Claim C7, amended. Two runs with the same slot time, the same previous block hash, the
  same validator and stake maps and the same \<open>total_stake\<close> return the same id; no
  other part of the state, and nothing outside it, is read.
\<close>

theorem select_validator_by_stake_deterministic:
  assumes "validators s1 = validators s2"
    and "stakes s1 = stakes s2"
    and "total_stake s1 = total_stake s2"
  shows "select_validator_by_stake uniform01 s1 slot previous_block_hash
           = select_validator_by_stake uniform01 s2 slot previous_block_hash"
proof -
  have e: "is_validator_eligible s1 vid slot = is_validator_eligible s2 vid slot" for vid
    unfolding is_validator_eligible_def assms ..
  have w: "calculate_validator_selection_weight s1 v slot
             = calculate_validator_selection_weight s2 v slot" for v
    unfolding calculate_validator_selection_weight_def assms ..
  show ?thesis
    unfolding select_validator_by_stake_def e w assms ..
qed

lemma sample_eligible: "is_validator_eligible sample_state validator_a 0"
  by (simp add: is_validator_eligible_def sample_state_def sample_validator_def sample_stake_def)

lemma sample_weight: "calculate_validator_selection_weight sample_state sample_validator 0 = 3 / 2"
  by (simp add: calculate_validator_selection_weight_def sample_state_def sample_validator_def)

lemma select_sample: "select_validator_by_stake mid_draw sample_state 0 zero_hash = validator_a"
proof -
  have v: "validators sample_state = [validator_a \<mapsto> sample_validator]"
    by (simp add: sample_state_def)
  have t: "total_stake sample_state \<noteq> 0"
    by (simp add: sample_state_def)
  show ?thesis
    by (simp add: select_validator_by_stake_def v t sample_eligible sample_weight mid_draw_def
          Let_def) (simp add: sample_validator_def)
qed

text \<open>
  Claim C7, as stated, fails: the maps alone do not fix the result. \<open>total_stake\<close> is
  a field of its own; with the same maps, a state whose \<open>total_stake\<close> is 0 yields the
  null id and one whose \<open>total_stake\<close> is 2000000 yields the validator.
\<close>

theorem select_validator_by_stake_reads_total_stake:
  "validators (sample_state\<lparr>total_stake := 0\<rparr>) = validators sample_state
   \<and> stakes (sample_state\<lparr>total_stake := 0\<rparr>) = stakes sample_state
   \<and> select_validator_by_stake mid_draw (sample_state\<lparr>total_stake := 0\<rparr>) 0 zero_hash
       \<noteq> select_validator_by_stake mid_draw sample_state 0 zero_hash"
proof -
  have "select_validator_by_stake mid_draw (sample_state\<lparr>total_stake := 0\<rparr>) 0 zero_hash = zero_hash"
    by (simp add: select_validator_by_stake_def)
  moreover have "zero_hash \<noteq> validator_a"
    by (simp add: zero_hash_def validator_a_def)
  ultimately show ?thesis
    by (simp add: select_sample)
qed

theorem select_validator_by_stake_deterministic_witness:
  "validators (sample_state\<lparr>current_height := 7\<rparr>) = validators sample_state
   \<and> stakes (sample_state\<lparr>current_height := 7\<rparr>) = stakes sample_state
   \<and> total_stake (sample_state\<lparr>current_height := 7\<rparr>) = total_stake sample_state
   \<and> select_validator_by_stake mid_draw (sample_state\<lparr>current_height := 7\<rparr>) 0 zero_hash
       = validator_a"
  using select_validator_by_stake_deterministic
    [of "sample_state\<lparr>current_height := 7\<rparr>" sample_state mid_draw 0 zero_hash]
  by (simp add: select_sample)

lemma length_compress: "length hs = 8 \<Longrightarrow> length (compress hs blk) = 8"
  by (simp add: compress_def Let_def split: prod.splits)

lemma length_foldl_compress: "length hs = 8 \<Longrightarrow> length (foldl compress hs blks) = 8"
  by (induction blks arbitrary: hs) (simp_all add: length_compress)

lemma length_concat_be32: "length (concat (map bytes_of_be32 ws)) = 4 * length ws"
  by (induction ws) (simp_all add: bytes_of_be32_def)

lemma length_sha256: "length (sha256 m) = 32"
  by (simp add: sha256_def length_concat_be32 length_foldl_compress H256_init_def)

lemma shift_or_byte:
  fixes acc :: "64 word" and b :: byte
  shows "push_bit 8 acc OR ucast b = acc * 256 + ucast b"
proof -
  have "push_bit 8 acc + (ucast b :: 64 word) = push_bit 8 acc OR ucast b"
    by (rule disjunctive_add) (auto simp: bit_simps dest: bit_imp_le_length)
  then show ?thesis
    by (simp add: push_bit_eq_mult)
qed

lemma foldl_shift_or:
  fixes bs :: "byte list"
  shows "foldl (\<lambda>acc b. push_bit 8 acc OR ucast b) (word_of_nat n :: 64 word) bs
     = word_of_nat (foldl (\<lambda>acc b. 256 * acc + unat b) n bs)"
proof (induction bs arbitrary: n)
  case Nil
  show ?case by simp
next
  case (Cons b bs)
  have A: "push_bit 8 (word_of_nat n :: 64 word) OR ucast b = word_of_nat n * 256 + ucast b"
    by (rule shift_or_byte)
  have B: "(word_of_nat (256 * n + unat b) :: 64 word) = word_of_nat n * 256 + ucast b"
    by simp
  have "push_bit 8 (word_of_nat n :: 64 word) OR ucast b = word_of_nat (256 * n + unat b)"
    by (simp only: A B)
  then show ?case
    using Cons [of "256 * n + unat b"] by (simp only: foldl_Cons)
qed

lemma be_nat_bound: "be_nat bs < 256 ^ length bs"
proof -
  have "foldl (\<lambda>acc b. 256 * acc + unat b) n bs < (n + 1) * 256 ^ length bs" for n
  proof (induction bs arbitrary: n)
    case Nil
    show ?case by simp
  next
    case (Cons b bs)
    have "unat b < 2 ^ LENGTH(8)" by (rule unsigned_less)
    then have "256 * n + unat b + 1 \<le> (n + 1) * 256" by simp
    then have "(256 * n + unat b + 1) * 256 ^ length bs \<le> (n + 1) * 256 * 256 ^ length bs"
      by (rule mult_le_mono1)
    moreover have "(n + 1) * 256 * 256 ^ length bs = (n + 1) * 256 ^ length (b # bs)"
      by (simp add: algebra_simps)
    moreover have "foldl (\<lambda>acc b. 256 * acc + unat b) n (b # bs)
             < (256 * n + unat b + 1) * 256 ^ length bs"
      using Cons [of "256 * n + unat b"] by simp
    ultimately show ?case by linarith
  qed
  from this [of 0] show ?thesis by (simp add: be_nat_def)
qed

lemma seed_value_of_be_nat:
  assumes "8 \<le> length h"
  shows "unat (seed_value_of h) = be_nat (take 8 h)"
proof -
  have "map ((!) h) [0..<8] = map ((!) (take 8 h)) [0..<8]"
    by (rule map_cong) simp_all
  also have "\<dots> = take 8 h"
    using map_nth [of "take 8 h"] assms by simp
  finally have idx: "map ((!) h) [0..<8] = take 8 h" .
  have "seed_value_of h
          = foldl (\<lambda>acc b. push_bit 8 acc OR ucast b) (word_of_nat 0) (map ((!) h) [0..<8])"
    unfolding seed_value_of_def foldl_map by simp
  then have "seed_value_of h = word_of_nat (be_nat (take 8 h))"
    unfolding idx foldl_shift_or be_nat_def .
  moreover have "be_nat (take 8 h) < 2 ^ 64"
    using be_nat_bound [of "take 8 h"] assms by simp
  ultimately show ?thesis
    by (simp add: unat_of_nat)
qed

lemma to_string_digits: "\<forall>b \<in> set (to_string n). 48 \<le> b \<and> b \<le> 57"
proof (induction n rule: to_string.induct)
  case (1 n)
  have d: "48 \<le> (48 + of_nat k :: byte) \<and> (48 + of_nat k :: byte) \<le> 57" if "k < 10" for k :: nat
  proof -
    have "unat (48 + of_nat k :: byte) = 48 + k"
      using that by (simp add: unat_word_ariths unat_of_nat)
    then show ?thesis using that by (simp add: word_le_nat_alt)
  qed
  show ?case
  proof (cases "n < 10")
    case True
    then show ?thesis using d [of n] by (subst to_string.simps) simp
  next
    case False
    then show ?thesis using "1" d [of "n mod 10"] by (subst to_string.simps) auto
  qed
qed

lemma decimal_value_snoc: "decimal_value (ds @ [d]) = 10 * decimal_value ds + (unat d - 48)"
  by (simp add: decimal_value_def)

lemma decimal_value_to_string: "decimal_value (to_string n) = n"
proof (induction n rule: to_string.induct)
  case (1 n)
  have d: "unat (48 + of_nat k :: byte) - 48 = k" if "k < 10" for k :: nat
    using that by (simp add: unat_word_ariths unat_of_nat)
  show ?case
  proof (cases "n < 10")
    case True
    then show ?thesis using d [of n] by (subst to_string.simps) (simp add: decimal_value_def)
  next
    case False
    then show ?thesis using "1" d [of "n mod 10"]
      by (subst to_string.simps) (simp add: decimal_value_snoc)
  qed
qed

lemma to_string_0: "to_string 0 = [48]"
  by (subst to_string.simps) simp

lemma sha256_seed_code:
  "sha256 (48 # replicate 32 0) =
     [0xe0, 0xf4, 0x4d, 0xf3, 0xe6, 0x60, 0x39, 0x91, 0x14, 0x9b, 0xad, 0x19, 0xf6, 0x32, 0x8d, 0xbd,
      0x9f, 0xaf, 0x0e, 0x26, 0x54, 0x2a, 0x87, 0x5c, 0x83, 0x31, 0x1e, 0xe4, 0x1e, 0xf3, 0xee, 0x3c]"
  by code_simp

lemma sha256_seed_spec_inner:
  "sha256 (replicate 40 0) =
     [0x2c, 0x34, 0xce, 0x1d, 0xf2, 0x3b, 0x83, 0x8c, 0x5a, 0xbf, 0x2a, 0x7f, 0x64, 0x37, 0xcc, 0xa3,
      0xd3, 0x06, 0x7e, 0xd5, 0x09, 0xff, 0x25, 0xf1, 0x1d, 0xf6, 0xb1, 0x1b, 0x58, 0x2b, 0x51, 0xeb]"
  by code_simp

lemma sha256_seed_spec_outer:
  "sha256 [0x2c, 0x34, 0xce, 0x1d, 0xf2, 0x3b, 0x83, 0x8c, 0x5a, 0xbf, 0x2a, 0x7f, 0x64, 0x37, 0xcc, 0xa3,
      0xd3, 0x06, 0x7e, 0xd5, 0x09, 0xff, 0x25, 0xf1, 0x1d, 0xf6, 0xb1, 0x1b, 0x58, 0x2b, 0x51, 0xeb] =
     [0x75, 0x29, 0x98, 0x50, 0x6c, 0x34, 0x97, 0x9b, 0x5c, 0xff, 0xb9, 0x3e, 0x51, 0xc1, 0xe0, 0xc7,
      0x6e, 0xe3, 0x5f, 0xcb, 0x42, 0x0e, 0x1a, 0x66, 0xa0, 0x32, 0x73, 0x0b, 0x69, 0x10, 0x8e, 0x32]"
  by code_simp

text \<open>
  Claim C8, as stated, fails: for slot time 0 and the all-zero previous hash the seed the
  code computes is not the double SHA-256 of the eight little-endian bytes followed by the
  hash.
\<close>

theorem selection_seed_differs_from_spec:
  "selection_seed_hash 0 zero_hash \<noteq> spec_selection_seed 0 zero_hash"
proof -
  have "encode_u64_le 0 @ zero_hash = replicate 40 0"
    by code_simp
  then have "spec_selection_seed 0 zero_hash =
     [0x75, 0x29, 0x98, 0x50, 0x6c, 0x34, 0x97, 0x9b, 0x5c, 0xff, 0xb9, 0x3e, 0x51, 0xc1, 0xe0, 0xc7,
      0x6e, 0xe3, 0x5f, 0xcb, 0x42, 0x0e, 0x1a, 0x66, 0xa0, 0x32, 0x73, 0x0b, 0x69, 0x10, 0x8e, 0x32]"
    by (simp add: spec_selection_seed_def double_hash_def sha256_seed_spec_inner sha256_seed_spec_outer)
  moreover have "selection_seed_hash 0 zero_hash =
     [0xe0, 0xf4, 0x4d, 0xf3, 0xe6, 0x60, 0x39, 0x91, 0x14, 0x9b, 0xad, 0x19, 0xf6, 0x32, 0x8d, 0xbd,
      0x9f, 0xaf, 0x0e, 0x26, 0x54, 0x2a, 0x87, 0x5c, 0x83, 0x31, 0x1e, 0xe4, 0x1e, 0xf3, 0xee, 0x3c]"
    by (simp add: selection_seed_hash_def selection_seed_data_def to_string_0 zero_hash_def
          sha256_seed_code)
  ultimately show ?thesis by simp
qed

lemma selection_uses_draw_at_seed:
  assumes "u1 (selection_seed_value slot previous_block_hash)
             = u2 (selection_seed_value slot previous_block_hash)"
  shows "select_validator_by_stake u1 s slot previous_block_hash
           = select_validator_by_stake u2 s slot previous_block_hash"
  unfolding select_validator_by_stake_def Let_def assms ..

lemma selection_seed_value_word:
  "selection_seed_value slot previous_block_hash
     = word_of_nat (be_nat (take 8 (sha256 (to_string (unat slot) @ previous_block_hash))))"
proof -
  let ?h = "sha256 (to_string (unat slot) @ previous_block_hash)"
  have u: "unat (seed_value_of ?h) = be_nat (take 8 ?h)"
    by (rule seed_value_of_be_nat) (simp add: length_sha256)
  have "seed_value_of ?h = word_of_nat (unat (seed_value_of ?h))"
    by simp
  then show ?thesis
    unfolding u by (simp add: selection_seed_value_def selection_seed_hash_def selection_seed_data_def)
qed

lemma validator_a_less_b: "validator_a < validator_b"
  by (simp add: validator_a_def validator_b_def eval_nat_numeral)

lemma two_keys:
  "sorted_list_of_set (dom (validators two_validator_state)) = [validator_a, validator_b]"
proof -
  have ne: "validator_a \<noteq> validator_b" using validator_a_less_b by auto
  have "dom (validators two_validator_state) = {validator_a, validator_b}"
    by (auto simp: two_validator_state_def)
  then show ?thesis
    using validator_a_less_b ne by (simp add: less_imp_le)
qed

lemma two_eligible:
  "is_validator_eligible two_validator_state validator_a 0"
  "is_validator_eligible two_validator_state validator_b 0"
  using validator_a_less_b
  by (auto simp: is_validator_eligible_def two_validator_state_def sample_validator_def
        sample_stake_def)

lemma two_weights:
  "calculate_validator_selection_weight two_validator_state (the (validators two_validator_state validator_a)) 0 = 3 / 4"
  "calculate_validator_selection_weight two_validator_state (the (validators two_validator_state validator_b)) 0 = 3 / 4"
  using validator_a_less_b
  by (auto simp: calculate_validator_selection_weight_def two_validator_state_def
        sample_validator_def)

lemma two_active:
  "is_active (the (validators two_validator_state validator_a))"
  "is_active (the (validators two_validator_state validator_b))"
  using validator_a_less_b
  by (auto simp: two_validator_state_def sample_validator_def)

lemma two_nonempty:
  "validators two_validator_state \<noteq> Map.empty" "total_stake two_validator_state \<noteq> 0"
  by (simp_all add: two_validator_state_def)

lemma select_two_mid: "select_validator_by_stake mid_draw two_validator_state 0 zero_hash = validator_a"
  by (simp add: select_validator_by_stake_def two_nonempty two_keys two_eligible two_active
        two_weights mid_draw_def Let_def)

lemma select_two_high: "select_validator_by_stake high_draw two_validator_state 0 zero_hash = validator_b"
  by (simp add: select_validator_by_stake_def two_nonempty two_keys two_eligible two_active
        two_weights high_draw_def Let_def)

text \<open>
  Claim C8, amended. The selection reads the generator at one seed only: the 64-bit number
  whose big-endian bytes are the first eight bytes of the single SHA-256 of the decimal
  ASCII digits of the slot time followed by the previous block hash. Two generators that
  agree at that seed select the same validator, and the draw does decide the selection:
  with two validators of equal weight a draw of 1/2 selects the first and a draw of 9/10
  the second.
\<close>

theorem selection_draw_seeded_by_sha256_of_decimal:
  "(u1 (word_of_nat (be_nat (take 8 (sha256 (to_string (unat slot) @ previous_block_hash)))))
      = u2 (word_of_nat (be_nat (take 8 (sha256 (to_string (unat slot) @ previous_block_hash)))))
    \<longrightarrow> select_validator_by_stake u1 s slot previous_block_hash
          = select_validator_by_stake u2 s slot previous_block_hash)
   \<and> select_validator_by_stake mid_draw two_validator_state 0 zero_hash
       \<noteq> select_validator_by_stake high_draw two_validator_state 0 zero_hash
   \<and> be_nat (take 8 (sha256 (to_string (unat slot) @ previous_block_hash))) < 2 ^ 64
   \<and> decimal_value (to_string (unat slot)) = unat slot
   \<and> list_all (\<lambda>b. 48 \<le> b \<and> b \<le> 57) (to_string (unat slot))"
proof -
  have "be_nat (take 8 (sha256 (to_string (unat slot) @ previous_block_hash))) < 256 ^ 8"
    using be_nat_bound [of "take 8 (sha256 (to_string (unat slot) @ previous_block_hash))"]
    by (simp add: length_sha256)
  then have b: "be_nat (take 8 (sha256 (to_string (unat slot) @ previous_block_hash))) < 2 ^ 64"
    by simp
  have d: "select_validator_by_stake mid_draw two_validator_state 0 zero_hash
       \<noteq> select_validator_by_stake high_draw two_validator_state 0 zero_hash"
    using validator_a_less_b by (simp add: select_two_mid select_two_high)
  show ?thesis
    using selection_uses_draw_at_seed [of u1 slot previous_block_hash u2 s] b d
      to_string_digits [of "unat slot"]
    by (simp add: selection_seed_value_word list_all_iff decimal_value_to_string)
qed

theorem selection_draw_seeded_by_sha256_of_decimal_witness:
  "mid_draw (word_of_nat (be_nat (take 8 (sha256 (to_string (unat (0 :: 64 word)) @ zero_hash)))))
     = other_draw (word_of_nat (be_nat (take 8 (sha256 (to_string (unat (0 :: 64 word)) @ zero_hash)))))
   \<and> select_validator_by_stake other_draw sample_state 0 zero_hash = validator_a
   \<and> decimal_value (to_string (unat (0 :: 64 word))) = 0"
proof -
  have h: "mid_draw (word_of_nat (be_nat (take 8 (sha256 (to_string (unat (0 :: 64 word)) @ zero_hash)))))
     = other_draw (word_of_nat (be_nat (take 8 (sha256 (to_string (unat (0 :: 64 word)) @ zero_hash)))))"
    by (simp only: other_draw_def mid_draw_def selection_seed_value_word simp_thms if_True)
  show ?thesis
    using selection_draw_seeded_by_sha256_of_decimal [of mid_draw 0 zero_hash other_draw sample_state] h
    by (simp add: select_sample)
qed

section \<open>Results: Merkle tree\<close>

lemma length_next_level: "length (next_level xs) = (length xs + 1) div 2"
  by (induction xs rule: next_level.induct) simp_all

lemma nth_next_level:
  "j < length (next_level xs) \<Longrightarrow>
     next_level xs ! j =
       sha256 (xs ! (2 * j) @ (if 2 * j + 1 < length xs then xs ! (2 * j + 1) else xs ! (2 * j)))"
proof (induction xs arbitrary: j rule: next_level.induct)
  case 1
  then show ?case by simp
next
  case (2 x)
  then show ?case by simp
next
  case (3 x y rest)
  show ?case
  proof (cases j)
    case 0
    then show ?thesis by simp
  next
    case (Suc i)
    with 3 show ?thesis by simp
  qed
qed

lemma chained_snoc:
  "levels \<noteq> [] \<Longrightarrow> chained levels \<Longrightarrow> chained (levels @ [next_level (last levels)])"
  by (induction levels rule: chained.induct) auto

lemma build_tree_shape:
  "levels \<noteq> [] \<Longrightarrow> last levels \<noteq> [] \<Longrightarrow> chained levels \<Longrightarrow>
     build_tree levels \<noteq> [] \<and> hd (build_tree levels) = hd levels
     \<and> chained (build_tree levels) \<and> length (last (build_tree levels)) = 1"
proof (induction levels rule: build_tree.induct)
  case (1 levels)
  show ?case
  proof (cases "length (last levels) > 1")
    case True
    have ne: "next_level (last levels) \<noteq> []"
      using True length_next_level [of "last levels"] by (cases "next_level (last levels)") auto
    have "build_tree (levels @ [next_level (last levels)]) \<noteq> [] \<and>
          hd (build_tree (levels @ [next_level (last levels)])) = hd (levels @ [next_level (last levels)]) \<and>
          chained (build_tree (levels @ [next_level (last levels)])) \<and>
          length (last (build_tree (levels @ [next_level (last levels)]))) = 1"
      using "1.IH" "1.prems" True ne by (simp add: chained_snoc)
    then show ?thesis
      using True "1.prems" by (subst (1 2 3 4) build_tree.simps) simp
  next
    case False
    then have "length (last levels) = 1"
      using "1.prems" by (cases "last levels") auto
    then show ?thesis
      using False "1.prems" by (subst (1 2 3 4) build_tree.simps) simp
  qed
qed

lemma MerkleTree_shape:
  assumes "hs \<noteq> []"
  shows "MerkleTree hs \<noteq> []" "hd (MerkleTree hs) = hs" "chained (MerkleTree hs)"
    "length (last (MerkleTree hs)) = 1"
  using build_tree_shape [of "[hs]"] assms by (simp_all add: MerkleTree_def)

lemma chained_nth:
  "chained levels \<Longrightarrow> Suc k < length levels \<Longrightarrow> levels ! Suc k = next_level (levels ! k)"
proof (induction levels arbitrary: k rule: chained.induct)
  case 1
  then show ?case by simp
next
  case (2 root_level)
  then show ?case by simp
next
  case (3 lower upper rest)
  then show ?case by (cases k) auto
qed

lemma half_index: "i < length xs \<Longrightarrow> i div 2 < length (next_level xs)"
proof -
  assume "i < length xs"
  then have "i div 2 < (length xs + 1) div 2" by arith
  then show ?thesis by (simp add: length_next_level)
qed

lemma verify_step:
  assumes "i < length xs"
  shows "sha256 (if i mod 2 = 0
                 then xs ! i @ (if (if i mod 2 = 0 then i + 1 else i - 1) < length xs
                                then xs ! (if i mod 2 = 0 then i + 1 else i - 1) else xs ! i)
                 else (if (if i mod 2 = 0 then i + 1 else i - 1) < length xs
                       then xs ! (if i mod 2 = 0 then i + 1 else i - 1) else xs ! i) @ xs ! i)
           = next_level xs ! (i div 2)"
proof (cases "i mod 2 = 0")
  case True
  then have "even i" by presburger
  then obtain k where k: "i = 2 * k" by (rule evenE)
  have "k < length (next_level xs)"
    using half_index [OF assms] k by simp
  from nth_next_level [OF this] show ?thesis
    by (simp add: k)
next
  case False
  then have "odd i" by presburger
  then obtain k where k: "i = 2 * k + 1" by (rule oddE)
  have "k < length (next_level xs)"
    using half_index [OF assms] k by simp
  from nth_next_level [OF this] assms show ?thesis
    by (simp add: k)
qed

lemma verify_path_proof_path:
  "chained levels \<Longrightarrow> levels \<noteq> [] \<Longrightarrow> i < length (hd levels) \<Longrightarrow> length (last levels) = 1 \<Longrightarrow>
     verify_path (hd levels ! i) i (proof_path levels i) = hd (last levels)"
proof (induction levels i rule: proof_path.induct)
  case (1 current_index)
  then show ?case by simp
next
  case (2 root_level current_index)
  then show ?case by (cases root_level) auto
next
  case (3 current_level v va current_index)
  let ?sib = "if (if current_index mod 2 = 0 then current_index + 1 else current_index - 1)
                   < length current_level
              then current_level ! (if current_index mod 2 = 0 then current_index + 1
                                    else current_index - 1)
              else current_level ! current_index"
  have up: "v = next_level current_level" and ch: "chained (v # va)"
    using "3.prems"(1) by auto
  have i: "current_index < length current_level"
    using "3.prems"(3) by simp
  have lt: "current_index div 2 < length (hd (v # va))"
    using half_index [OF i] up by simp
  have IH: "verify_path (hd (v # va) ! (current_index div 2)) (current_index div 2)
              (proof_path (v # va) (current_index div 2)) = hd (last (v # va))"
    using "3.IH" ch lt "3.prems"(4) by simp
  have step: "sha256 (if current_index mod 2 = 0 then current_level ! current_index @ ?sib
                      else ?sib @ current_level ! current_index)
                = v ! (current_index div 2)"
    using verify_step [OF i] up by (simp only:)
  have "proof_path (current_level # v # va) current_index
          = ?sib # proof_path (v # va) (current_index div 2)"
    by (simp add: Let_def)
  then have "verify_path (hd (current_level # v # va) ! current_index) current_index
               (proof_path (current_level # v # va) current_index)
          = verify_path (v ! (current_index div 2)) (current_index div 2)
               (proof_path (v # va) (current_index div 2))"
    using step by (simp only: verify_path.simps list.sel)
  then show ?case
    using IH by simp
qed

text \<open>
  Claim C5. For a non-empty list of leaf hashes and an index within it, the proof that
  \<open>get_proof\<close> produces for the leaf verifies against the root of the tree; at each
  level the parity of the index decides on which side the sibling is hashed.
\<close>

theorem merkle_proof_verifies:
  assumes "H \<noteq> []" and "i < length H"
  shows "verify_proof (H ! i) (get_proof (MerkleTree H) i) (get_root (MerkleTree H)) i (length H)"
proof -
  have s: "MerkleTree H \<noteq> []" "hd (MerkleTree H) = H" "chained (MerkleTree H)"
    "length (last (MerkleTree H)) = 1"
    using MerkleTree_shape [OF assms(1)] by simp_all
  have "last (MerkleTree H) \<noteq> []"
    using s(4) by auto
  then have root: "get_root (MerkleTree H) = hd (last (MerkleTree H))"
    using s(1) by (simp add: get_root_def)
  have "get_proof (MerkleTree H) i = proof_path (MerkleTree H) i"
    using s(1,2) assms(2) by (simp add: get_proof_def)
  then show ?thesis
    using verify_path_proof_path [OF s(3) s(1), of i] s(2,4) assms(2) root
    by (simp add: verify_proof_def)
qed

lemma MerkleTree_two:
  "MerkleTree [x, y] = [[x, y], [sha256 (x @ y)]]"
proof -
  have "build_tree [[x, y]] = build_tree [[x, y], [sha256 (x @ y)]]"
    by (subst build_tree.simps) simp
  also have "\<dots> = [[x, y], [sha256 (x @ y)]]"
    by (subst build_tree.simps) simp
  finally show ?thesis by (simp add: MerkleTree_def)
qed

lemma sha256_zero_pair:
  "sha256 (replicate 64 0) =
     [0xf5, 0xa5, 0xfd, 0x42, 0xd1, 0x6a, 0x20, 0x30, 0x27, 0x98, 0xef, 0x6e, 0xd3, 0x09, 0x97, 0x9b,
      0x43, 0x00, 0x3d, 0x23, 0x20, 0xd9, 0xf0, 0xe8, 0xea, 0x98, 0x31, 0xa9, 0x27, 0x59, 0xfb, 0x4b]"
  by code_simp

lemma sha256_zero_pair_twice:
  "sha256 [0xf5, 0xa5, 0xfd, 0x42, 0xd1, 0x6a, 0x20, 0x30, 0x27, 0x98, 0xef, 0x6e, 0xd3, 0x09, 0x97, 0x9b,
      0x43, 0x00, 0x3d, 0x23, 0x20, 0xd9, 0xf0, 0xe8, 0xea, 0x98, 0x31, 0xa9, 0x27, 0x59, 0xfb, 0x4b] =
     [0xe2, 0xf6, 0x1c, 0x3f, 0x71, 0xd1, 0xde, 0xfd, 0x3f, 0xa9, 0x99, 0xdf, 0xa3, 0x69, 0x53, 0x75,
      0x5c, 0x69, 0x06, 0x89, 0x79, 0x99, 0x62, 0xb4, 0x8b, 0xeb, 0xd8, 0x36, 0x97, 0x4e, 0x8c, 0xf9]"
  by code_simp

text \<open>
  Claim C4, as stated, fails: the parent of a pair is the single SHA-256 of the two hashes
  put together, not the double one. For two all-zero leaves the parent, which is also the
  root, differs from the double SHA-256 of the 64 zero bytes.
\<close>

theorem merkle_parent_is_not_double_sha256:
  "MerkleTree [zero_hash, zero_hash] ! 1 ! 0 \<noteq> double_hash (zero_hash @ zero_hash)
   \<and> get_root (MerkleTree [zero_hash, zero_hash]) \<noteq> double_hash (zero_hash @ zero_hash)"
proof -
  have z: "zero_hash @ zero_hash = replicate 64 0"
    by code_simp
  show ?thesis
    by (simp add: MerkleTree_two get_root_def z double_hash_def sha256_zero_pair
          sha256_zero_pair_twice)
qed

lemma build_tree_stops:
  "levels \<noteq> [] \<Longrightarrow> (\<forall>k. Suc k < length levels \<longrightarrow> 1 < length (levels ! k)) \<Longrightarrow>
     (\<forall>k. Suc k < length (build_tree levels) \<longrightarrow> 1 < length (build_tree levels ! k))"
proof (induction levels rule: build_tree.induct)
  case (1 levels)
  show ?case
  proof (cases "length (last levels) > 1")
    case True
    have ext: "\<forall>k. Suc k < length (levels @ [next_level (last levels)]) \<longrightarrow>
                 1 < length ((levels @ [next_level (last levels)]) ! k)"
    proof (intro allI impI)
      fix k assume "Suc k < length (levels @ [next_level (last levels)])"
      then have k: "k < length levels" by simp
      show "1 < length ((levels @ [next_level (last levels)]) ! k)"
      proof (cases "Suc k < length levels")
        case True
        then show ?thesis using "1.prems"(2) k by (simp add: nth_append)
      next
        case False
        then have "k = length levels - 1" using k by simp
        then have "levels ! k = last levels"
          using "1.prems"(1) by (simp add: last_conv_nth)
        then show ?thesis using \<open>length (last levels) > 1\<close> k by (simp add: nth_append)
      qed
    qed
    have "\<forall>k. Suc k < length (build_tree (levels @ [next_level (last levels)])) \<longrightarrow>
            1 < length (build_tree (levels @ [next_level (last levels)]) ! k)"
      using "1.IH" "1.prems"(1) True ext by simp
    then show ?thesis
      using True "1.prems"(1) by (subst (1 2) build_tree.simps) simp
  next
    case False
    then show ?thesis
      using "1.prems" by (subst (1 2) build_tree.simps) simp
  qed
qed

lemma MerkleTree_stops:
  "Suc k < length (MerkleTree ids) \<Longrightarrow> 1 < length (MerkleTree ids ! k)"
proof (cases "ids = []")
  case True
  assume "Suc k < length (MerkleTree ids)"
  then show ?thesis using True by (simp add: MerkleTree_def)
next
  case False
  assume "Suc k < length (MerkleTree ids)"
  then show ?thesis
    using False build_tree_stops [of "[ids]"] by (simp add: MerkleTree_def)
qed

text \<open>
  Claim C4, amended. Over a non-empty list of transaction ids the tree starts with the ids;
  every level that has a level above it holds more than one hash; the level above has half
  as many hashes, rounded up, and its hash number \<open>j\<close> is the single SHA-256 of hashes
  \<open>2j\<close> and \<open>2j + 1\<close> of the level below put together, hash \<open>2j\<close> taking both
  places when it is the last of an odd-length level; the last level is the one root hash,
  so the tree ends at the first level with a single hash and the root of a single id is
  that id. For a block with no cached root, \<open>calculate_merkle_root\<close> returns that root
  for the hashes of its transactions.
\<close>

theorem merkle_levels_single_sha256:
  assumes "ids \<noteq> []"
  shows "MerkleTree ids \<noteq> [] \<and> hd (MerkleTree ids) = ids
    \<and> (\<forall>k. Suc k < length (MerkleTree ids) \<longrightarrow>
          1 < length (MerkleTree ids ! k)
          \<and> length (MerkleTree ids ! Suc k) = (length (MerkleTree ids ! k) + 1) div 2
          \<and> (\<forall>j < length (MerkleTree ids ! Suc k).
                MerkleTree ids ! Suc k ! j =
                  sha256 (MerkleTree ids ! k ! (2 * j)
                          @ (if 2 * j + 1 < length (MerkleTree ids ! k)
                             then MerkleTree ids ! k ! (2 * j + 1)
                             else MerkleTree ids ! k ! (2 * j)))))
    \<and> last (MerkleTree ids) = [get_root (MerkleTree ids)]
    \<and> (length ids = 1 \<longrightarrow> MerkleTree ids = [ids] \<and> get_root (MerkleTree ids) = hd ids)
    \<and> (\<forall>b. cached_merkle b = None \<and> map (\<lambda>tx. fst (get_hash tx)) (transactions b) = ids
          \<longrightarrow> fst (calculate_merkle_root b) = get_root (MerkleTree ids))"
proof -
  have s: "MerkleTree ids \<noteq> []" "hd (MerkleTree ids) = ids" "chained (MerkleTree ids)"
    "length (last (MerkleTree ids)) = 1"
    using MerkleTree_shape [OF assms] by simp_all
  have lv: "1 < length (MerkleTree ids ! k)
          \<and> length (MerkleTree ids ! Suc k) = (length (MerkleTree ids ! k) + 1) div 2
          \<and> (\<forall>j < length (MerkleTree ids ! Suc k).
                MerkleTree ids ! Suc k ! j =
                  sha256 (MerkleTree ids ! k ! (2 * j)
                          @ (if 2 * j + 1 < length (MerkleTree ids ! k)
                             then MerkleTree ids ! k ! (2 * j + 1)
                             else MerkleTree ids ! k ! (2 * j))))"
    if "Suc k < length (MerkleTree ids)" for k
    using chained_nth [OF s(3) that] nth_next_level [of _ "MerkleTree ids ! k"]
      MerkleTree_stops [OF that]
    by (simp add: length_next_level)
  obtain r where r: "last (MerkleTree ids) = [r]"
    using s(4) by (cases "last (MerkleTree ids)") auto
  then have top: "last (MerkleTree ids) = [get_root (MerkleTree ids)]"
    using s(1) by (simp add: get_root_def)
  have one: "MerkleTree ids = [ids] \<and> get_root (MerkleTree ids) = hd ids" if "length ids = 1"
  proof -
    have "MerkleTree ids = build_tree [ids]"
      using assms by (simp add: MerkleTree_def)
    also have "\<dots> = [ids]"
      using that by (subst build_tree.simps) simp
    finally show ?thesis
      using assms by (simp add: get_root_def)
  qed
  have blk: "fst (calculate_merkle_root b) = get_root (MerkleTree ids)"
    if "cached_merkle b = None \<and> map (\<lambda>tx. fst (get_hash tx)) (transactions b) = ids" for b
  proof -
    have "transactions b \<noteq> []" using that assms by auto
    then show ?thesis
      using that by (simp add: calculate_merkle_root_def Let_def comp_def)
  qed
  show ?thesis
    using s(1,2) lv top one blk by blast
qed

theorem merkle_levels_single_sha256_witness:
  "map (\<lambda>tx. fst (get_hash tx)) (transactions sample_block) \<noteq> []
   \<and> cached_merkle sample_block = None
   \<and> fst (calculate_merkle_root sample_block)
       = get_root (MerkleTree (map (\<lambda>tx. fst (get_hash tx)) (transactions sample_block)))
   \<and> last (MerkleTree (map (\<lambda>tx. fst (get_hash tx)) (transactions sample_block)))
       = [fst (calculate_merkle_root sample_block)]
   \<and> [zero_hash] \<noteq> [] \<and> length [zero_hash] = 1
   \<and> MerkleTree [zero_hash] = [[zero_hash]] \<and> get_root (MerkleTree [zero_hash]) = zero_hash"
proof -
  have ne: "map (\<lambda>tx. fst (get_hash tx)) (transactions sample_block) \<noteq> []"
    by (simp add: sample_block_def)
  have c: "cached_merkle sample_block = None"
    by (simp add: sample_block_def)
  have ne1: "[zero_hash] \<noteq> []" by simp
  show ?thesis
    using merkle_levels_single_sha256 [OF ne] merkle_levels_single_sha256 [OF ne1] ne c by auto
qed

theorem merkle_proof_verifies_witness:
  "[zero_hash, validator_a, zero_hash] \<noteq> []
   \<and> 2 < length [zero_hash, validator_a, zero_hash]
   \<and> verify_proof zero_hash (get_proof (MerkleTree [zero_hash, validator_a, zero_hash]) 2)
         (get_root (MerkleTree [zero_hash, validator_a, zero_hash])) 2
         (length [zero_hash, validator_a, zero_hash])"
  using merkle_proof_verifies [of "[zero_hash, validator_a, zero_hash]" 2]
  by simp

section \<open>Results: UTXO set\<close>
























lemma sample_txid_is_hash: "double_hash (serialize_legacy sample_tx) = sample_txid"
  by code_simp

end
